theory Spec2Isabelle
  imports Main "HOL-Library.AList"
begin

section \<open>The step-1 question sequencer of the PMM assistant\<close>

text \<open>
  A shallow embedding of the question sequencing in \<^verbatim>\<open>src/static/js/app.js\<close>
  (class \<^verbatim>\<open>PMMAssistant\<close>): \<^verbatim>\<open>startChatMode\<close>, \<^verbatim>\<open>sendChatMessage\<close>,
  \<^verbatim>\<open>handleStep1Question\<close> and \<^verbatim>\<open>validateResponse\<close>.

  Modelling decisions.
  \<^item> A JavaScript string is a \<open>string\<close>. An absent object property
    (\<^verbatim>\<open>undefined\<close>) is \<open>None\<close>; a missing \<^verbatim>\<open>conditional\<close> flag is \<open>False\<close>.
  \<^item> The object \<^verbatim>\<open>this.responses\<close> is an association list in insertion order;
    \<^verbatim>\<open>responses[k] = v\<close> is \<open>AList.update\<close> (overwrite in place, else append) and
    \<^verbatim>\<open>responses[k]\<close> is \<open>map_of\<close>. Keys are taken not to be names that a
    JavaScript object inherits from its prototype.
  \<^item> Everything the code does to the outside is appended to a trace of events:
    the chat messages it posts, the requests to the validation service and to the chat
    backend, and the finalisation of step 1.
  \<^item> The validation service and the chat backend are parameters: functions of the
    trace so far and of the request, so that any behaviour of a stateful service over a
    run is an instance.
  \<^item> The calls are taken one at a time, each run to its end before the next starts
    (the self-call of \<^verbatim>\<open>handleStep1Question\<close>, which the source does not await, is
    run to its end in place).
  \<^item> The session id, the typing indicator, the progress bar and the fields
    \<^verbatim>\<open>currentStep\<close> and \<^verbatim>\<open>isInChatMode\<close> play no part in the sequencing and
    are left out.
\<close>

subsection \<open>Data\<close>

text \<open>One entry of \<^verbatim>\<open>this.questions\<close> (lines 59-101).\<close>

record question =
  id_q :: string
  question_q :: string
  type_q :: string
  options :: "string list option"
  required :: bool
  conditional :: bool
  depends_on :: "string option"
  depends_value :: "string option"

text \<open>What \<^verbatim>\<open>/api/validate-response\<close> and \<^verbatim>\<open>/api/chat\<close> give back: a JSON
  reply, or a failed \<^verbatim>\<open>fetch\<close> (or a body that is not JSON), which throws. Of a
  validation reply only the truthiness of \<^verbatim>\<open>is_valid\<close> is read (line 156).\<close>

datatype validator_reply = IsValid bool | ValidatorFailed

datatype chat_reply = ChatResponse string | ChatFailed

text \<open>
  The trace. \<open>UserMessage\<close> is the user's message shown in the chat (line 111).
  \<open>AssistantMessage\<close> is a message the sequencer itself posts: the welcome and the
  first question (lines 54, 58), the clarification and a question asked again (lines 160,
  161), the next question (line 198). \<open>ValidateRequest\<close> is a request to the
  validation service with the message, the question's text and its type (lines 210-221).
  \<open>Step1Finalized\<close> is the end of step 1 with the responses handed over.
  \<open>ChatRequest\<close> is a message sent to \<^verbatim>\<open>/api/chat\<close> together with what comes back
  and is then shown: the reply's text (line 140) or, after a failure, the apology of
  line 146.
\<close>

datatype event =
    UserMessage string
  | AssistantMessage string
  | ValidateRequest string string string
  | Step1Finalized "(string \<times> string) list"
  | ChatRequest string chat_reply

type_synonym validator = "event list \<Rightarrow> string \<Rightarrow> string \<Rightarrow> string \<Rightarrow> validator_reply"

type_synonym chat_backend = "event list \<Rightarrow> string \<Rightarrow> chat_reply"

record state =
  currentQuestionIndex :: nat
  questions :: "question list"
  responses :: "(string \<times> string) list"
  events :: "event list"

datatype js_error = TypeError

text \<open>How a call of an async function ends: it returns, or it throws after the
  effects it had so far.\<close>

datatype outcome = Done state | Threw js_error state

fun final :: "outcome \<Rightarrow> state" where
  "final (Done s) = s"
| "final (Threw e s) = s"

subsection \<open>Strings\<close>

text \<open>\<^verbatim>\<open>String.prototype.trim\<close> removes white space and line terminators at both
  ends. A \<open>char\<close> stands for a code unit below 256; of these the white space is tab,
  line feed, vertical tab, form feed, carriage return, space and the no-break space.
  No theorem below depends on which characters count as white space.\<close>

definition js_whitespace :: "char \<Rightarrow> bool" where
  "js_whitespace c = (of_char c \<in> {9, 10, 11, 12, 13, 32, 160 :: nat})"

definition trim :: "string \<Rightarrow> string" where
  "trim s = rev (dropWhile js_whitespace (rev (dropWhile js_whitespace s)))"

text \<open>Truthiness of a property that holds a string or is absent.\<close>

fun truthy :: "string option \<Rightarrow> bool" where
  "truthy None = False"
| "truthy (Some t) = (t \<noteq> [])"

subsection \<open>The fixed texts\<close>

definition welcome_text :: string where
  "welcome_text = ''Welcome to the PMM Assistant! I'll guide you through an 11-step positioning and messaging workflow. Let's start with Step 1: Context Gathering & Planning.''"

definition clarification_text :: string where
  "clarification_text = ''I need a more detailed response. Could you please provide more specific information?''"

definition apology_text :: string where
  "apology_text = ''I apologize, but I encountered an error. Please try again.''"

definition product_name_text :: string where
  "product_name_text = ''What is the name of the specific product you're doing this exercise for?''"

subsection \<open>startChatMode (lines 47-102)\<close>

definition step1_questions :: "question list" where
  "step1_questions =
    [ \<lparr> id_q = ''company_name'',
        question_q = ''What is your company name?'',
        type_q = ''text'', options = None, required = True,
        conditional = False, depends_on = None, depends_value = None \<rparr>,
      \<lparr> id_q = ''company_description'',
        question_q = ''Please provide a brief description of what your company does.'',
        type_q = ''textarea'', options = None, required = True,
        conditional = False, depends_on = None, depends_value = None \<rparr>,
      \<lparr> id_q = ''customer_description'',
        question_q = ''Please provide a brief description of who your customers are.'',
        type_q = ''textarea'', options = None, required = True,
        conditional = False, depends_on = None, depends_value = None \<rparr>,
      \<lparr> id_q = ''positioning_experience'',
        question_q = ''Are you doing the positioning and messaging exercise for the first time, or are you repositioning an existing brand?'',
        type_q = ''select'',
        options = Some [''First time'', ''Repositioning existing brand''],
        required = True,
        conditional = False, depends_on = None, depends_value = None \<rparr>,
      \<lparr> id_q = ''company_scope'',
        question_q = ''Are you doing this exercise for the whole company or a specific segment/product?'',
        type_q = ''select'',
        options = Some [''Whole company'', ''Specific segment/product''],
        required = True,
        conditional = False, depends_on = None, depends_value = None \<rparr>,
      \<lparr> id_q = ''product_name'',
        question_q = product_name_text,
        type_q = ''text'', options = None, required = False,
        conditional = True, depends_on = Some ''company_scope'',
        depends_value = Some ''Specific segment/product'' \<rparr> ]"

text \<open>The state the constructor leaves (lines 4-13).\<close>

definition constructed :: state where
  "constructed =
    \<lparr> currentQuestionIndex = 0, questions = [], responses = [], events = [] \<rparr>"

definition startChatMode :: "state \<Rightarrow> state" where
  "startChatMode s =
    s\<lparr> currentQuestionIndex := 0,
       events := events s @
         [AssistantMessage welcome_text, AssistantMessage ''What is your company name?''],
       questions := step1_questions \<rparr>"

subsection \<open>validateResponse (lines 208-230)\<close>

text \<open>The request carries the message, the question's text and its type. A reply
  gives its \<^verbatim>\<open>is_valid\<close>; anything thrown is caught and gives \<^verbatim>\<open>false\<close>.\<close>

definition validateResponse :: "validator \<Rightarrow> string \<Rightarrow> question \<Rightarrow> state \<Rightarrow> bool \<times> state" where
  "validateResponse V message q s =
    ((case V (events s) message (question_q q) (type_q q) of
        IsValid b \<Rightarrow> b
      | ValidatorFailed \<Rightarrow> False),
     s\<lparr> events := events s @ [ValidateRequest message (question_q q) (type_q q)] \<rparr>)"

subsection \<open>handleStep1Question (lines 150-206)\<close>

text \<open>The end of step 1 (lines 189-192 and 201-204): \<^verbatim>\<open>saveStep1Responses\<close>,
  \<^verbatim>\<open>generatePMMPlan\<close>, \<^verbatim>\<open>updateStepStatus\<close> and \<^verbatim>\<open>updateProgress\<close> read
  \<^verbatim>\<open>this.responses\<close> and write none of the three fields of the sequencer. Their
  joint run is one event, which carries the responses handed over.\<close>

definition completeStep1 :: "state \<Rightarrow> state" where
  "completeStep1 s = s\<lparr> events := events s @ [Step1Finalized (responses s)] \<rparr>"

definition addChatMessage :: "string \<Rightarrow> state \<Rightarrow> state" where
  "addChatMessage text s = s\<lparr> events := events s @ [AssistantMessage text] \<rparr>"

text \<open>
  \<open>handleStep1Question\<close> is the whole function; \<open>nextOrSkip\<close> is its second half, from
  line 174 on, entered once the answer is stored and the index incremented. With the
  index out of range \<^verbatim>\<open>currentQuestion\<close> is \<^verbatim>\<open>undefined\<close>: \<^verbatim>\<open>validateResponse\<close>
  throws before it sends anything, catches that and returns \<^verbatim>\<open>false\<close>; the
  clarification is posted, and reading \<^verbatim>\<open>currentQuestion.question\<close> throws.
\<close>

function handleStep1Question :: "validator \<Rightarrow> string \<Rightarrow> state \<Rightarrow> outcome"
  and nextOrSkip :: "validator \<Rightarrow> state \<Rightarrow> state" where
  "handleStep1Question V message s =
    (if currentQuestionIndex s < length (questions s) then
       (let currentQuestion = questions s ! currentQuestionIndex s;
            isValid = fst (validateResponse V message currentQuestion s);
            s1 = snd (validateResponse V message currentQuestion s)
        in if \<not> isValid then
             Done (addChatMessage (question_q currentQuestion)
                    (addChatMessage clarification_text s1))
           else
             Done (nextOrSkip V
                    (s1\<lparr> responses := AList.update (id_q currentQuestion) message (responses s1),
                        currentQuestionIndex := currentQuestionIndex s + 1 \<rparr>)))
     else Threw TypeError (addChatMessage clarification_text s))"
| "nextOrSkip V s =
    (if currentQuestionIndex s < length (questions s) then
       (let nextQuestion = questions s ! currentQuestionIndex s
        in if conditional nextQuestion \<and> truthy (depends_on nextQuestion) then
             (let dependsResponse = map_of (responses s) (the (depends_on nextQuestion))
              in if dependsResponse \<noteq> depends_value nextQuestion then
                   (if currentQuestionIndex s + 1 < length (questions s) then
                      final (handleStep1Question V ''''
                              (s\<lparr> currentQuestionIndex := currentQuestionIndex s + 1 \<rparr>))
                    else
                      completeStep1 (s\<lparr> currentQuestionIndex := currentQuestionIndex s + 1 \<rparr>))
                 else addChatMessage (question_q nextQuestion) s)
           else addChatMessage (question_q nextQuestion) s)
     else completeStep1 s)"
  by pat_completeness auto
termination
  by (relation "measure (\<lambda>x. case x of
          Inl (V, m, s) \<Rightarrow> 2 * (length (questions s) - currentQuestionIndex s)
        | Inr (V, s) \<Rightarrow> 2 * (length (questions s) - currentQuestionIndex s) + 1)")
     (auto simp: validateResponse_def)

declare handleStep1Question.simps [simp del] nextOrSkip.simps [simp del]

subsection \<open>sendChatMessage (lines 104-148)\<close>

definition sendChatMessage :: "validator \<Rightarrow> chat_backend \<Rightarrow> string \<Rightarrow> state \<Rightarrow> state" where
  "sendChatMessage V C input s =
    (let message = trim input
     in if message = [] then s
        else
          (let s1 = s\<lparr> events := events s @ [UserMessage message] \<rparr>
           in if currentQuestionIndex s1 < length (questions s1) then
                (case handleStep1Question V message s1 of
                   Done s2 \<Rightarrow> s2
                 | Threw e s2 \<Rightarrow> addChatMessage apology_text s2)
              else s1\<lparr> events := events s1 @ [ChatRequest message (C (events s1) message)] \<rparr>))"

text \<open>A run: the user's inputs, one after the other.\<close>

fun run :: "validator \<Rightarrow> chat_backend \<Rightarrow> string list \<Rightarrow> state \<Rightarrow> state" where
  "run V C [] s = s"
| "run V C (input # inputs) s = run V C inputs (sendChatMessage V C input s)"

text \<open>The source keeps no phase: line 119 sends a message to the questions while the
  index is inside the list, and to the chat backend from then on.\<close>

datatype phase = Collecting | Handoff

definition phase :: "state \<Rightarrow> phase" where
  "phase s = (if currentQuestionIndex s < length (questions s) then Collecting else Handoff)"

subsection \<open>Observations on the trace\<close>

fun is_validate :: "event \<Rightarrow> bool" where
  "is_validate (ValidateRequest m q t) = True"
| "is_validate e = False"

fun is_finalized :: "event \<Rightarrow> bool" where
  "is_finalized (Step1Finalized r) = True"
| "is_finalized e = False"

text \<open>The number of requests sent to the validation service so far.\<close>

definition validatorCalls :: "state \<Rightarrow> nat" where
  "validatorCalls s = length (filter is_validate (events s))"

text \<open>A text was posted by the assistant before step 1 was finalised (or was posted,
  when step 1 is not finalised yet).\<close>

definition presented_before_completion :: "string \<Rightarrow> event list \<Rightarrow> bool" where
  "presented_before_completion text evs =
    (AssistantMessage text \<in> set (takeWhile (\<lambda>e. \<not> is_finalized e) evs))"

text \<open>Answers handed to \<open>handleStep1Question\<close> one after the other, and the trace
  that a row of rejections of the question \<open>q\<close> leaves.\<close>

fun submitAll :: "validator \<Rightarrow> string list \<Rightarrow> state \<Rightarrow> state" where
  "submitAll V [] s = s"
| "submitAll V (m # ms) s = submitAll V ms (final (handleStep1Question V m s))"

fun allRejected :: "validator \<Rightarrow> string list \<Rightarrow> state \<Rightarrow> bool" where
  "allRejected V [] s = True"
| "allRejected V (m # ms) s =
    (\<not> fst (validateResponse V m (questions s ! currentQuestionIndex s) s)
     \<and> allRejected V ms (final (handleStep1Question V m s)))"

fun rejections :: "question \<Rightarrow> string list \<Rightarrow> event list" where
  "rejections q [] = []"
| "rejections q (m # ms) =
    [ValidateRequest m (question_q q) (type_q q),
     AssistantMessage clarification_text,
     AssistantMessage (question_q q)] @ rejections q ms"

subsection \<open>The sequencer as the specification words it\<close>

text \<open>
  The specification's \<open>Question\<close> has an optional dependency, a pair of the id it
  depends on and the value required there. The source reads a question as dependent
  when \<^verbatim>\<open>conditional\<close> and \<^verbatim>\<open>depends_on\<close> are both truthy (line 179).
\<close>

definition dependency_of :: "question \<Rightarrow> (string \<times> string option) option" where
  "dependency_of q =
    (if conditional q \<and> truthy (depends_on q)
     then Some (the (depends_on q), depends_value q) else None)"








text \<open>The configuration constant of the specification (section 6): id, kind, options,
  required, dependency. It gives no prompts.\<close>

datatype kind = ShortText | LongText | SingleSelect

record spec_question =
  sq_id :: string
  sq_kind :: kind
  sq_options :: "string list option"
  sq_required :: bool
  sq_dependency :: "(string \<times> string) option"

definition shipped_questions :: "spec_question list" where
  "shipped_questions =
    [ \<lparr> sq_id = ''company_name'', sq_kind = ShortText, sq_options = None,
        sq_required = True, sq_dependency = None \<rparr>,
      \<lparr> sq_id = ''company_description'', sq_kind = LongText, sq_options = None,
        sq_required = True, sq_dependency = None \<rparr>,
      \<lparr> sq_id = ''customer_description'', sq_kind = LongText, sq_options = None,
        sq_required = True, sq_dependency = None \<rparr>,
      \<lparr> sq_id = ''positioning_experience'', sq_kind = SingleSelect,
        sq_options = Some [''First time'', ''Repositioning existing brand''],
        sq_required = True, sq_dependency = None \<rparr>,
      \<lparr> sq_id = ''company_scope'', sq_kind = SingleSelect,
        sq_options = Some [''Whole company'', ''Specific segment/product''],
        sq_required = True, sq_dependency = None \<rparr>,
      \<lparr> sq_id = ''product_name'', sq_kind = ShortText, sq_options = None,
        sq_required = False,
        sq_dependency = Some (''company_scope'', ''Specific segment/product'') \<rparr> ]"

text \<open>A question of the source read as a \<open>Question\<close> of the specification, when it
  is one: its type is one of the three kinds, and a dependency names its value.\<close>

definition kind_of :: "string \<Rightarrow> kind option" where
  "kind_of t =
    (if t = ''text'' then Some ShortText
     else if t = ''textarea'' then Some LongText
     else if t = ''select'' then Some SingleSelect
     else None)"

definition spec_view :: "question \<Rightarrow> spec_question option" where
  "spec_view q =
    (case kind_of (type_q q) of
       None \<Rightarrow> None
     | Some k \<Rightarrow>
        (case dependency_of q of
           None \<Rightarrow>
             Some \<lparr> sq_id = id_q q, sq_kind = k, sq_options = options q,
                    sq_required = required q, sq_dependency = None \<rparr>
         | Some (dependsOnId, None) \<Rightarrow> None
         | Some (dependsOnId, Some requiredValue) \<Rightarrow>
             Some \<lparr> sq_id = id_q q, sq_kind = k, sq_options = options q,
                    sq_required = required q,
                    sq_dependency = Some (dependsOnId, requiredValue) \<rparr>))"

subsection \<open>Invariant of a run over the shipped list\<close>

definition sequencer_inv :: "state \<Rightarrow> bool" where
  "sequencer_inv s \<longleftrightarrow>
     questions s = step1_questions
   \<and> currentQuestionIndex s \<le> 6
   \<and> (currentQuestionIndex s \<le> 4 \<longrightarrow> map_of (responses s) ''company_scope'' = None)
   \<and> (currentQuestionIndex s \<le> 5 \<longrightarrow> map_of (responses s) ''product_name'' = None)
   \<and> (currentQuestionIndex s = 5 \<longrightarrow>
        map_of (responses s) ''company_scope'' = Some ''Specific segment/product'')
   \<and> (map_of (responses s) ''product_name'' \<noteq> None \<longrightarrow>
        map_of (responses s) ''company_scope'' = Some ''Specific segment/product'')
   \<and> (AssistantMessage product_name_text \<in> set (events s) \<longrightarrow>
        5 \<le> currentQuestionIndex s
        \<and> map_of (responses s) ''company_scope'' = Some ''Specific segment/product'')
   \<and> (5 \<le> currentQuestionIndex s
        \<and> map_of (responses s) ''company_scope'' = Some ''Specific segment/product'' \<longrightarrow>
        presented_before_completion product_name_text (events s))
   \<and> (currentQuestionIndex s < 6 \<longrightarrow> \<not> list_ex is_finalized (events s))"

subsection \<open>Concrete collaborators, states and runs\<close>

definition acceptAll :: validator where
  "acceptAll h m q t = IsValid True"

definition rejectAll :: validator where
  "rejectAll h m q t = IsValid False"

definition unavailable :: validator where
  "unavailable h m q t = ValidatorFailed"

definition chatOk :: chat_backend where
  "chatOk h m = ChatResponse ''ok''"

definition start_state :: state where
  "start_state = startChatMode constructed"

definition whole_company_run :: state where
  "whole_company_run =
    run acceptAll chatOk
      [''Acme'', ''We sell widgets'', ''SMBs'', ''First time'', ''Whole company'']
      start_state"

definition segment_run :: state where
  "segment_run =
    run acceptAll chatOk
      [''Acme'', ''We sell widgets'', ''SMBs'', ''First time'', ''Specific segment/product'']
      start_state"




text \<open>A validation service that wants more than two characters.\<close>

definition wantsThree :: validator where
  "wantsThree h m q t = IsValid (2 < length m)"

section \<open>Basic facts\<close>

lemma validateResponse_frame [simp]:
  "currentQuestionIndex (snd (validateResponse V m q s)) = currentQuestionIndex s"
  "questions (snd (validateResponse V m q s)) = questions s"
  "responses (snd (validateResponse V m q s)) = responses s"
  "events (snd (validateResponse V m q s)) =
     events s @ [ValidateRequest m (question_q q) (type_q q)]"
  by (simp_all add: validateResponse_def)

lemma addChatMessage_frame [simp]:
  "currentQuestionIndex (addChatMessage t s) = currentQuestionIndex s"
  "questions (addChatMessage t s) = questions s"
  "responses (addChatMessage t s) = responses s"
  "events (addChatMessage t s) = events s @ [AssistantMessage t]"
  by (simp_all add: addChatMessage_def)

lemma completeStep1_frame [simp]:
  "currentQuestionIndex (completeStep1 s) = currentQuestionIndex s"
  "questions (completeStep1 s) = questions s"
  "responses (completeStep1 s) = responses s"
  "events (completeStep1 s) = events s @ [Step1Finalized (responses s)]"
  by (simp_all add: completeStep1_def)

lemma validatorCalls_events:
  "events s' = events s @ evs \<Longrightarrow>
     validatorCalls s' = validatorCalls s + length (filter is_validate evs)"
  by (simp add: validatorCalls_def)

text \<open>The guard of line 108.\<close>

lemma sendChatMessage_blank:
  "trim input = [] \<Longrightarrow> sendChatMessage V C input s = s"
  by (simp add: sendChatMessage_def)

lemma all_dropWhile_iff:
  "(\<forall>x \<in> set (dropWhile P xs). P x) \<longleftrightarrow> (\<forall>x \<in> set xs. P x)"
  by (induction xs) auto

lemma trim_blank_iff:
  "trim input = [] \<longleftrightarrow> (\<forall>c \<in> set input. js_whitespace c)"
  by (simp add: trim_def dropWhile_eq_Nil_conv all_dropWhile_iff)

text \<open>The two ways through the first half of \<open>handleStep1Question\<close>.\<close>

lemma handle_rejected:
  assumes "currentQuestionIndex s < length (questions s)"
    and "\<not> fst (validateResponse V m (questions s ! currentQuestionIndex s) s)"
  shows "handleStep1Question V m s =
    Done (s\<lparr> events := events s @
      [ValidateRequest m (question_q (questions s ! currentQuestionIndex s))
         (type_q (questions s ! currentQuestionIndex s)),
       AssistantMessage clarification_text,
       AssistantMessage (question_q (questions s ! currentQuestionIndex s))] \<rparr>)"
  using assms
  by (subst handleStep1Question.simps)
     (simp add: Let_def addChatMessage_def validateResponse_def)

lemma handle_accepted:
  assumes "currentQuestionIndex s < length (questions s)"
    and "fst (validateResponse V m (questions s ! currentQuestionIndex s) s)"
  shows "handleStep1Question V m s =
    Done (nextOrSkip V (s\<lparr> events := events s @
      [ValidateRequest m (question_q (questions s ! currentQuestionIndex s))
         (type_q (questions s ! currentQuestionIndex s))],
      responses := AList.update (id_q (questions s ! currentQuestionIndex s)) m (responses s),
      currentQuestionIndex := currentQuestionIndex s + 1 \<rparr>))"
  using assms
  by (subst handleStep1Question.simps)
     (simp add: Let_def validateResponse_def)

lemma handoff_routes_to_chat:
  assumes "phase s = Handoff" and "trim input \<noteq> []"
  shows "sendChatMessage V C input s =
    s\<lparr> events := events s @
      [UserMessage (trim input),
       ChatRequest (trim input) (C (events s @ [UserMessage (trim input)]) (trim input))] \<rparr>"
  using assms
  by (simp add: sendChatMessage_def phase_def Let_def split: if_splits)

subsection \<open>The concrete states\<close>

lemma length_step1_questions [simp]: "length step1_questions = 6"
  by (simp add: step1_questions_def)

lemma start_state_simps [simp]:
  "currentQuestionIndex start_state = 0"
  "questions start_state = step1_questions"
  "responses start_state = []"
  "events start_state =
     [AssistantMessage welcome_text, AssistantMessage ''What is your company name?'']"
  by (simp_all add: start_state_def startChatMode_def constructed_def)

lemma whole_company_run_simps:
  "currentQuestionIndex whole_company_run = 6"
  "questions whole_company_run = step1_questions"
  "responses whole_company_run =
     [(''company_name'', ''Acme''), (''company_description'', ''We sell widgets''),
      (''customer_description'', ''SMBs''), (''positioning_experience'', ''First time''),
      (''company_scope'', ''Whole company'')]"
  unfolding whole_company_run_def by code_simp+

lemma segment_run_simps:
  "currentQuestionIndex segment_run = 5"
  "questions segment_run = step1_questions"
  "responses segment_run =
     [(''company_name'', ''Acme''), (''company_description'', ''We sell widgets''),
      (''customer_description'', ''SMBs''), (''positioning_experience'', ''First time''),
      (''company_scope'', ''Specific segment/product'')]"
  unfolding segment_run_def by code_simp+

section \<open>Empty input\<close>

text \<open>
  C10. An input that trims to the empty string makes \<open>sendChatMessage\<close> return at
  once: the state, and with it the index, the responses, the phase and the trace, is
  the one before, so neither \<open>handleStep1Question\<close> nor the validation service nor the
  chat backend was called. An input of white space only trims to the empty string.
\<close>

theorem blank_input_is_ignored:
  "(trim input = [] \<longrightarrow> sendChatMessage V C input s = s)
   \<and> ((\<forall>c \<in> set input. js_whitespace c) \<longrightarrow> trim input = [])"
  by (simp add: sendChatMessage_blank trim_blank_iff)

theorem blank_input_is_ignored_witness:
  "trim ''  '' = [] \<and> sendChatMessage rejectAll chatOk ''  '' start_state = start_state
   \<and> list_all js_whitespace ''  ''"
proof -
  have w: "\<forall>c \<in> set ''  ''. js_whitespace c"
    by (simp add: js_whitespace_def)
  with blank_input_is_ignored [of "''  ''" rejectAll chatOk start_state]
  show ?thesis by (simp add: list_all_iff)
qed

text \<open>
  C3, as the code has it. While a required question is current, an empty or
  white-space-only input leaves the index and the responses as they are and sends
  nothing to the validation service; the trace is unchanged as well, so the question is
  not asked again.
\<close>

theorem blank_answer_to_required_question:
  assumes "currentQuestionIndex s < length (questions s)"
    and "required (questions s ! currentQuestionIndex s)"
    and "trim input = []"
  shows "currentQuestionIndex (sendChatMessage V C input s) = currentQuestionIndex s
    \<and> responses (sendChatMessage V C input s) = responses s
    \<and> validatorCalls (sendChatMessage V C input s) = validatorCalls s
    \<and> events (sendChatMessage V C input s) = events s"
  using assms(3) by (simp add: sendChatMessage_blank)

theorem blank_answer_to_required_question_witness:
  "currentQuestionIndex start_state < length (questions start_state)
   \<and> required (questions start_state ! currentQuestionIndex start_state)
   \<and> trim [] = []
   \<and> currentQuestionIndex (sendChatMessage rejectAll chatOk [] start_state) = 0
   \<and> responses (sendChatMessage rejectAll chatOk [] start_state) = []
   \<and> validatorCalls (sendChatMessage rejectAll chatOk [] start_state) = validatorCalls start_state
   \<and> events (sendChatMessage rejectAll chatOk [] start_state) = events start_state"
proof -
  have a: "currentQuestionIndex start_state < length (questions start_state)"
    by simp
  have b: "required (questions start_state ! currentQuestionIndex start_state)"
    by (simp add: step1_questions_def)
  have c: "trim [] = []"
    by (simp add: trim_def)
  from blank_answer_to_required_question [OF a b c, of rejectAll chatOk] a b c
  show ?thesis by simp
qed

text \<open>
  C3 as stated fails: with the required first question current, a white-space-only
  input posts nothing, so the question is not re-asked; and \<open>handleStep1Question\<close>
  itself, handed the empty message, does send it to the validation service.
\<close>

theorem blank_answer_not_reasked:
  "required (questions start_state ! currentQuestionIndex start_state)
   \<and> events (sendChatMessage rejectAll chatOk ''   '' start_state) = events start_state
   \<and> validatorCalls (final (handleStep1Question rejectAll [] start_state))
       = validatorCalls start_state + 1"
proof -
  have "trim ''   '' = []"
    by (simp add: trim_def js_whitespace_def)
  then have "sendChatMessage rejectAll chatOk ''   '' start_state = start_state"
    by (rule sendChatMessage_blank)
  moreover have "required (questions start_state ! currentQuestionIndex start_state)"
    by (simp add: step1_questions_def)
  moreover have "validatorCalls (final (handleStep1Question rejectAll [] start_state))
       = validatorCalls start_state + 1"
    by (subst handle_rejected)
       (simp_all add: validateResponse_def rejectAll_def validatorCalls_def)
  ultimately show ?thesis by simp
qed

text \<open>
  C7, as the code has it. While a question that is not required is current, the empty
  string sends nothing to the validation service, and it is not accepted either: the
  responses and the index stay as they were.
\<close>

theorem empty_answer_to_optional_question:
  assumes "currentQuestionIndex s < length (questions s)"
    and "\<not> required (questions s ! currentQuestionIndex s)"
  shows "validatorCalls (sendChatMessage V C [] s) = validatorCalls s
    \<and> responses (sendChatMessage V C [] s) = responses s
    \<and> currentQuestionIndex (sendChatMessage V C [] s) = currentQuestionIndex s"
  by (simp add: sendChatMessage_blank trim_def)

theorem empty_answer_to_optional_question_witness:
  "currentQuestionIndex segment_run < length (questions segment_run)
   \<and> \<not> required (questions segment_run ! currentQuestionIndex segment_run)
   \<and> validatorCalls (sendChatMessage acceptAll chatOk [] segment_run) = validatorCalls segment_run
   \<and> responses (sendChatMessage acceptAll chatOk [] segment_run) = responses segment_run
   \<and> currentQuestionIndex (sendChatMessage acceptAll chatOk [] segment_run) = 5"
proof -
  have a: "currentQuestionIndex segment_run < length (questions segment_run)"
    by (simp add: segment_run_simps)
  have b: "\<not> required (questions segment_run ! currentQuestionIndex segment_run)"
    by (simp add: segment_run_simps step1_questions_def)
  from empty_answer_to_optional_question [OF a b, of acceptAll chatOk] a b
  show ?thesis by (simp add: segment_run_simps)
qed

text \<open>
  C7 as stated fails: with the optional product-name question current, the empty string
  entered in the chat is not accepted (the index stays at 5 and no product name is
  stored), and \<open>handleStep1Question\<close> handed the empty message sends it to the
  validation service.
\<close>

theorem empty_answer_not_accepted:
  "\<not> required (questions segment_run ! currentQuestionIndex segment_run)
   \<and> currentQuestionIndex (sendChatMessage acceptAll chatOk [] segment_run) = 5
   \<and> map_of (responses (sendChatMessage acceptAll chatOk [] segment_run)) ''product_name'' = None
   \<and> validatorCalls (final (handleStep1Question acceptAll [] segment_run))
       = validatorCalls segment_run + 1"
proof -
  have "sendChatMessage acceptAll chatOk [] segment_run = segment_run"
    by (simp add: sendChatMessage_blank trim_def)
  moreover have "\<not> required (questions segment_run ! currentQuestionIndex segment_run)"
    by (simp add: segment_run_simps step1_questions_def)
  moreover have "validatorCalls (final (handleStep1Question acceptAll [] segment_run))
       = validatorCalls segment_run + 1"
    unfolding validatorCalls_def segment_run_def by code_simp
  ultimately show ?thesis by (simp add: segment_run_simps)
qed

section \<open>Validation failures\<close>

text \<open>
  C4. When the request to the validation service fails while a question is current,
  \<open>handleStep1Question\<close> ends as a rejection: the answer is not stored, the index
  does not move, and the clarification and the current question are posted.
\<close>

theorem validator_failure_is_rejection:
  assumes "currentQuestionIndex s < length (questions s)"
    and "V (events s) message (question_q (questions s ! currentQuestionIndex s))
           (type_q (questions s ! currentQuestionIndex s)) = ValidatorFailed"
  shows "handleStep1Question V message s =
    Done (s\<lparr> events := events s @
      [ValidateRequest message (question_q (questions s ! currentQuestionIndex s))
         (type_q (questions s ! currentQuestionIndex s)),
       AssistantMessage clarification_text,
       AssistantMessage (question_q (questions s ! currentQuestionIndex s))] \<rparr>)"
  using assms by (intro handle_rejected) (simp_all add: validateResponse_def)

theorem validator_failure_is_rejection_witness:
  "currentQuestionIndex start_state < length (questions start_state)
   \<and> unavailable (events start_state) ''Acme'' ''What is your company name?'' ''text''
       = ValidatorFailed
   \<and> handleStep1Question unavailable ''Acme'' start_state =
       Done (start_state\<lparr> events := events start_state @
         [ValidateRequest ''Acme'' ''What is your company name?'' ''text'',
          AssistantMessage clarification_text,
          AssistantMessage ''What is your company name?''] \<rparr>)"
proof -
  have a: "currentQuestionIndex start_state < length (questions start_state)"
    by simp
  have b: "unavailable (events start_state) ''Acme''
      (question_q (questions start_state ! currentQuestionIndex start_state))
      (type_q (questions start_state ! currentQuestionIndex start_state)) = ValidatorFailed"
    by (simp add: unavailable_def)
  have q: "question_q (questions start_state ! currentQuestionIndex start_state)
             = ''What is your company name?''"
    "type_q (questions start_state ! currentQuestionIndex start_state) = ''text''"
    by (simp_all add: step1_questions_def)
  from validator_failure_is_rejection
         [where s = start_state and V = unavailable and message = "''Acme''", OF a b] a
  show ?thesis unfolding q by (simp add: unavailable_def)
qed

section \<open>After the last question\<close>

text \<open>
  C5, as the code has it. Once the index has left the list, a further non-empty chat
  message is not handled as an answer: the index and the responses stay, nothing goes to
  the validation service, and the message is sent to the chat backend. No error is
  raised.
\<close>

theorem message_after_handoff_goes_to_chat:
  assumes "phase s = Handoff" and "trim input \<noteq> []"
  shows "sendChatMessage V C input s =
    s\<lparr> events := events s @
      [UserMessage (trim input),
       ChatRequest (trim input) (C (events s @ [UserMessage (trim input)]) (trim input))] \<rparr>"
  using assms by (rule handoff_routes_to_chat)

theorem message_after_handoff_goes_to_chat_witness:
  "phase whole_company_run = Handoff \<and> trim ''hello'' \<noteq> []
   \<and> sendChatMessage acceptAll chatOk ''hello'' whole_company_run =
       whole_company_run\<lparr> events := events whole_company_run @
         [UserMessage ''hello'', ChatRequest ''hello'' (ChatResponse ''ok'')] \<rparr>"
proof -
  have a: "phase whole_company_run = Handoff"
    by (simp add: phase_def whole_company_run_simps)
  have t: "trim ''hello'' = ''hello''"
    by (simp add: trim_def js_whitespace_def)
  then have b: "trim ''hello'' \<noteq> []"
    by simp
  from message_after_handoff_goes_to_chat [OF a b, of acceptAll chatOk] a b
  show ?thesis unfolding t by (simp add: chatOk_def)
qed

text \<open>
  C5 as stated fails: after the five answers of the whole-company run step 1 is over, and
  a further message is passed to the chat backend, whose reply comes back; the call
  neither raises an error nor posts the apology of the catch block.
\<close>

theorem message_after_handoff_not_refused:
  "phase whole_company_run = Handoff
   \<and> events (sendChatMessage acceptAll chatOk ''hello'' whole_company_run) =
       events whole_company_run @
         [UserMessage ''hello'', ChatRequest ''hello'' (ChatResponse ''ok'')]"
proof -
  have a: "phase whole_company_run = Handoff"
    by (simp add: phase_def whole_company_run_simps)
  have t: "trim ''hello'' = ''hello''"
    by (simp add: trim_def js_whitespace_def)
  from handoff_routes_to_chat [OF a, of "''hello''" acceptAll chatOk] a
  show ?thesis unfolding t by (simp add: chatOk_def)
qed

section \<open>What a call leaves alone\<close>

lemma questions_unchanged:
  "questions (final (handleStep1Question V m s)) = questions s"
  "questions (nextOrSkip V s') = questions s'"
proof (induction V m s and V s' rule: handleStep1Question_nextOrSkip.induct)
  case (1 V message s)
  then show ?case
    by (subst handleStep1Question.simps) (simp add: Let_def)
next
  case (2 V s)
  then show ?case
    by (subst nextOrSkip.simps) (simp add: Let_def)
qed

lemma caught_fields [simp]:
  "questions (case r of Done s2 \<Rightarrow> s2 | Threw e s2 \<Rightarrow> addChatMessage t s2)
     = questions (final r)"
  "currentQuestionIndex (case r of Done s2 \<Rightarrow> s2 | Threw e s2 \<Rightarrow> addChatMessage t s2)
     = currentQuestionIndex (final r)"
  "responses (case r of Done s2 \<Rightarrow> s2 | Threw e s2 \<Rightarrow> addChatMessage t s2)
     = responses (final r)"
  by (cases r; simp)+

lemma index_monotone:
  "currentQuestionIndex s \<le> currentQuestionIndex (final (handleStep1Question V m s))"
  "currentQuestionIndex s' \<le> currentQuestionIndex (nextOrSkip V s')"
proof (induction V m s and V s' rule: handleStep1Question_nextOrSkip.induct)
  case (1 V message s)
  show ?case
  proof (cases "currentQuestionIndex s < length (questions s)
      \<and> fst (validateResponse V message (questions s ! currentQuestionIndex s) s)")
    case True
    with 1 [OF _ refl refl refl] show ?thesis
      by (subst handleStep1Question.simps) (simp add: Let_def)
  next
    case False
    then show ?thesis
      by (subst handleStep1Question.simps) (auto simp add: Let_def)
  qed
next
  case (2 V s)
  show ?case
  proof (cases "currentQuestionIndex s < length (questions s)
      \<and> conditional (questions s ! currentQuestionIndex s)
      \<and> truthy (depends_on (questions s ! currentQuestionIndex s))
      \<and> map_of (responses s) (the (depends_on (questions s ! currentQuestionIndex s)))
          \<noteq> depends_value (questions s ! currentQuestionIndex s)
      \<and> currentQuestionIndex s + 1 < length (questions s)")
    case True
    with 2 [OF _ refl _ refl] show ?thesis
      by (subst nextOrSkip.simps) (simp add: Let_def)
  next
    case False
    then show ?thesis
      by (subst nextOrSkip.simps) (auto simp add: Let_def)
  qed
qed


lemma validatorCalls_frame [simp]:
  "validatorCalls (snd (validateResponse V m q s)) = validatorCalls s + 1"
  "validatorCalls (addChatMessage t s) = validatorCalls s"
  "validatorCalls (completeStep1 s) = validatorCalls s"
  "validatorCalls (s\<lparr> currentQuestionIndex := i \<rparr>) = validatorCalls s"
  "validatorCalls (s\<lparr> responses := r \<rparr>) = validatorCalls s"
  by (simp_all add: validatorCalls_def)


lemma sendChatMessage_questions [simp]:
  "questions (sendChatMessage V C input s) = questions s"
  by (simp add: sendChatMessage_def Let_def questions_unchanged)

lemma sendChatMessage_index:
  "currentQuestionIndex s \<le> currentQuestionIndex (sendChatMessage V C input s)"
  using index_monotone(1) [of "s\<lparr> events := events s @ [UserMessage (trim input)] \<rparr>" V "trim input"]
  by (simp add: sendChatMessage_def Let_def)

lemma run_append: "run V C (xs @ ys) s = run V C ys (run V C xs s)"
  by (induction xs arbitrary: s) simp_all

lemma run_questions [simp]: "questions (run V C inputs s) = questions s"
  by (induction inputs arbitrary: s) simp_all

lemma run_index: "currentQuestionIndex s \<le> currentQuestionIndex (run V C inputs s)"
proof (induction inputs arbitrary: s)
  case Nil
  show ?case by simp
next
  case (Cons i inputs)
  have "currentQuestionIndex s \<le> currentQuestionIndex (sendChatMessage V C i s)"
    by (rule sendChatMessage_index)
  also have "\<dots> \<le> currentQuestionIndex (run V C inputs (sendChatMessage V C i s))"
    by (rule Cons.IH)
  finally show ?case by simp
qed

section \<open>Position and phase over a run\<close>

text \<open>
  C8. Along any sequence of chat inputs, from any state (so from the one
  \<open>startChatMode\<close> leaves; \<^verbatim>\<open>init\<close> is its only caller, once per page), the index
  of a later state is never below the index of an earlier one, and once the phase is
  Handoff it is Handoff in every later state.
\<close>

theorem position_never_decreases:
  "currentQuestionIndex (run V C xs s) \<le> currentQuestionIndex (run V C (xs @ ys) s)
   \<and> (phase (run V C xs s) = Handoff \<longrightarrow> phase (run V C (xs @ ys) s) = Handoff)"
proof -
  have le: "currentQuestionIndex (run V C xs s) \<le> currentQuestionIndex (run V C (xs @ ys) s)"
    unfolding run_append by (rule run_index)
  moreover have "phase (run V C (xs @ ys) s) = Handoff" if "phase (run V C xs s) = Handoff"
    using that le by (simp add: phase_def split: if_splits)
  ultimately show ?thesis by blast
qed

theorem position_never_decreases_witness:
  "phase whole_company_run = Handoff
   \<and> phase (run acceptAll chatOk
        ([''Acme'', ''We sell widgets'', ''SMBs'', ''First time'', ''Whole company'']
          @ [''hello'']) start_state) = Handoff
   \<and> currentQuestionIndex whole_company_run
       \<le> currentQuestionIndex (run acceptAll chatOk
        ([''Acme'', ''We sell widgets'', ''SMBs'', ''First time'', ''Whole company'']
          @ [''hello'']) start_state)"
proof -
  have a: "phase whole_company_run = Handoff"
    by (simp add: phase_def whole_company_run_simps)
  from position_never_decreases [of acceptAll chatOk
      "[''Acme'', ''We sell widgets'', ''SMBs'', ''First time'', ''Whole company'']"
      start_state "[''hello'']"] a
  show ?thesis
    unfolding whole_company_run_def by blast
qed

section \<open>The question list\<close>

text \<open>
  C9. The list that \<open>startChatMode\<close> builds, read as questions of the specification,
  is the six-entry configuration constant, in its order and with its one dependency;
  and no sequence of chat inputs changes the list.
\<close>

theorem question_list_is_the_constant:
  "map spec_view (questions (startChatMode s)) = map Some shipped_questions
   \<and> questions (run V C inputs (startChatMode s)) = questions (startChatMode s)"
  by (simp add: startChatMode_def step1_questions_def shipped_questions_def
      spec_view_def kind_of_def dependency_of_def)

theorem question_list_is_the_constant_witness:
  "map spec_view (questions start_state) = map Some shipped_questions
   \<and> questions whole_company_run = questions start_state"
  using question_list_is_the_constant [of constructed acceptAll chatOk
      "[''Acme'', ''We sell widgets'', ''SMBs'', ''First time'', ''Whole company'']"]
  unfolding whole_company_run_def start_state_def by blast

section \<open>Rejections and the answer after them\<close>

lemma submitAll_rejected:
  "currentQuestionIndex s < length (questions s) \<Longrightarrow> allRejected V ms s \<Longrightarrow>
     submitAll V ms s =
       s\<lparr> events := events s @ rejections (questions s ! currentQuestionIndex s) ms \<rparr>"
proof (induction ms arbitrary: s)
  case Nil
  show ?case by simp
next
  case (Cons m ms)
  let ?q = "questions s ! currentQuestionIndex s"
  let ?s1 = "s\<lparr> events := events s @
      [ValidateRequest m (question_q ?q) (type_q ?q),
       AssistantMessage clarification_text, AssistantMessage (question_q ?q)] \<rparr>"
  from Cons.prems have rej: "\<not> fst (validateResponse V m ?q s)"
    by simp
  with Cons.prems(1) have step: "handleStep1Question V m s = Done ?s1"
    by (rule handle_rejected)
  with Cons.prems(2) have "allRejected V ms ?s1"
    by simp
  moreover have "currentQuestionIndex ?s1 < length (questions ?s1)"
    using Cons.prems(1) by simp
  ultimately have "submitAll V ms ?s1 =
      ?s1\<lparr> events := events ?s1 @ rejections (questions ?s1 ! currentQuestionIndex ?s1) ms \<rparr>"
    by (rule Cons.IH [rotated])
  with step show ?case by simp
qed

text \<open>
  C6. After any number of answers in a row that the validation service rejects, the
  index, the responses and the question list are those before; each rejection posted
  the clarification and the same current question. If the next answer is accepted, it
  is stored under the id of the current question and the index goes up by exactly one;
  the skip logic of the second half then runs on that state.
\<close>

theorem rejections_then_acceptance:
  assumes "currentQuestionIndex s < length (questions s)"
    and "allRejected V ms s"
  shows "submitAll V ms s =
      s\<lparr> events := events s @ rejections (questions s ! currentQuestionIndex s) ms \<rparr>
    \<and> (fst (validateResponse V m (questions s ! currentQuestionIndex s) (submitAll V ms s)) \<longrightarrow>
        handleStep1Question V m (submitAll V ms s) =
          Done (nextOrSkip V
            (s\<lparr> events := events s @ rejections (questions s ! currentQuestionIndex s) ms @
                  [ValidateRequest m (question_q (questions s ! currentQuestionIndex s))
                     (type_q (questions s ! currentQuestionIndex s))],
                responses :=
                  AList.update (id_q (questions s ! currentQuestionIndex s)) m (responses s),
                currentQuestionIndex := currentQuestionIndex s + 1 \<rparr>)))"
proof -
  let ?q = "questions s ! currentQuestionIndex s"
  let ?s' = "s\<lparr> events := events s @ rejections ?q ms \<rparr>"
  have eq: "submitAll V ms s = ?s'"
    using assms by (rule submitAll_rejected)
  have "handleStep1Question V m ?s' =
      Done (nextOrSkip V
        (s\<lparr> events := events s @ rejections ?q ms @
              [ValidateRequest m (question_q ?q) (type_q ?q)],
            responses := AList.update (id_q ?q) m (responses s),
            currentQuestionIndex := currentQuestionIndex s + 1 \<rparr>))"
    if "fst (validateResponse V m ?q ?s')"
    using handle_accepted [of ?s' V m] assms(1) that by simp
  with eq show ?thesis by simp
qed

theorem rejections_then_acceptance_witness:
  "currentQuestionIndex start_state < length (questions start_state)
   \<and> allRejected wantsThree [''a'', ''ab''] start_state
   \<and> currentQuestionIndex (submitAll wantsThree [''a'', ''ab''] start_state) = 0
   \<and> responses (submitAll wantsThree [''a'', ''ab''] start_state) = []
   \<and> events (submitAll wantsThree [''a'', ''ab''] start_state) =
       events start_state @
         [ValidateRequest ''a'' ''What is your company name?'' ''text'',
          AssistantMessage clarification_text,
          AssistantMessage ''What is your company name?'',
          ValidateRequest ''ab'' ''What is your company name?'' ''text'',
          AssistantMessage clarification_text,
          AssistantMessage ''What is your company name?'']
   \<and> fst (validateResponse wantsThree ''Acme''
        (questions start_state ! currentQuestionIndex start_state)
        (submitAll wantsThree [''a'', ''ab''] start_state))
   \<and> handleStep1Question wantsThree ''Acme'' (submitAll wantsThree [''a'', ''ab''] start_state) =
       Done (nextOrSkip wantsThree
         (start_state\<lparr> events := events start_state @
             [ValidateRequest ''a'' ''What is your company name?'' ''text'',
              AssistantMessage clarification_text,
              AssistantMessage ''What is your company name?'',
              ValidateRequest ''ab'' ''What is your company name?'' ''text'',
              AssistantMessage clarification_text,
              AssistantMessage ''What is your company name?'',
              ValidateRequest ''Acme'' ''What is your company name?'' ''text''],
            responses := [(''company_name'', ''Acme'')],
            currentQuestionIndex := 1 \<rparr>))"
proof -
  let ?six = "[ValidateRequest ''a'' ''What is your company name?'' ''text'',
          AssistantMessage clarification_text,
          AssistantMessage ''What is your company name?'',
          ValidateRequest ''ab'' ''What is your company name?'' ''text'',
          AssistantMessage clarification_text,
          AssistantMessage ''What is your company name?'']"
  have a: "currentQuestionIndex start_state < length (questions start_state)"
    by simp
  have q0: "question_q (step1_questions ! 0) = ''What is your company name?''"
    "type_q (step1_questions ! 0) = ''text''" "id_q (step1_questions ! 0) = ''company_name''"
    by (simp_all add: step1_questions_def)
  have r1: "\<not> fst (validateResponse wantsThree m (step1_questions ! 0) s')"
    if "length m \<le> 2" for m s'
    using that by (simp add: validateResponse_def wantsThree_def)
  have h1: "handleStep1Question wantsThree m s' =
      Done (s'\<lparr> events := events s' @
        [ValidateRequest m ''What is your company name?'' ''text'',
         AssistantMessage clarification_text,
         AssistantMessage ''What is your company name?''] \<rparr>)"
    if "length m \<le> 2" "currentQuestionIndex s' = 0" "questions s' = step1_questions" for m s'
    using handle_rejected [of s' wantsThree m] r1 [OF that(1)] that(2,3) by (simp add: q0)
  have sub: "submitAll wantsThree [''a'', ''ab''] start_state =
      start_state\<lparr> events := events start_state @ ?six \<rparr>"
    by (simp add: h1)
  have b: "allRejected wantsThree [''a'', ''ab''] start_state"
    by (simp add: r1 h1)
  have i: "currentQuestionIndex (submitAll wantsThree [''a'', ''ab''] start_state) = 0"
    unfolding sub by simp
  have r: "responses (submitAll wantsThree [''a'', ''ab''] start_state) = []"
    unfolding sub by simp
  have e: "events (submitAll wantsThree [''a'', ''ab''] start_state) =
      events start_state @ ?six"
    unfolding sub by simp
  have c: "fst (validateResponse wantsThree ''Acme''
        (questions start_state ! currentQuestionIndex start_state)
        (submitAll wantsThree [''a'', ''ab''] start_state))"
    by (simp add: validateResponse_def wantsThree_def)
  from rejections_then_acceptance [OF a b, of "''Acme''"] c
  have "handleStep1Question wantsThree ''Acme''
      (submitAll wantsThree [''a'', ''ab''] start_state) =
    Done (nextOrSkip wantsThree
      (start_state\<lparr> events := events start_state @
          rejections (questions start_state ! currentQuestionIndex start_state) [''a'', ''ab''] @
          [ValidateRequest ''Acme''
             (question_q (questions start_state ! currentQuestionIndex start_state))
             (type_q (questions start_state ! currentQuestionIndex start_state))],
        responses := AList.update
          (id_q (questions start_state ! currentQuestionIndex start_state)) ''Acme''
          (responses start_state),
        currentQuestionIndex := currentQuestionIndex start_state + 1 \<rparr>))"
    by blast
  also have "start_state\<lparr> events := events start_state @
          rejections (questions start_state ! currentQuestionIndex start_state) [''a'', ''ab''] @
          [ValidateRequest ''Acme''
             (question_q (questions start_state ! currentQuestionIndex start_state))
             (type_q (questions start_state ! currentQuestionIndex start_state))],
        responses := AList.update
          (id_q (questions start_state ! currentQuestionIndex start_state)) ''Acme''
          (responses start_state),
        currentQuestionIndex := currentQuestionIndex start_state + 1 \<rparr>
     = start_state\<lparr> events := events start_state @ ?six @
             [ValidateRequest ''Acme'' ''What is your company name?'' ''text''],
            responses := [(''company_name'', ''Acme'')],
            currentQuestionIndex := 1 \<rparr>"
    by (simp add: q0)
  finally have concl: "handleStep1Question wantsThree ''Acme''
      (submitAll wantsThree [''a'', ''ab''] start_state) =
    Done (nextOrSkip wantsThree
      (start_state\<lparr> events := events start_state @ ?six @
             [ValidateRequest ''Acme'' ''What is your company name?'' ''text''],
            responses := [(''company_name'', ''Acme'')],
            currentQuestionIndex := 1 \<rparr>))" .
  from a b i r e c concl show ?thesis
    by simp
qed

section \<open>The skip step\<close>











section \<open>The product-name question\<close>

lemma below_five: "(i::nat) < 5 \<Longrightarrow> i = 0 \<or> i = 1 \<or> i = 2 \<or> i = 3 \<or> i = 4"
  by arith

lemma first_five:
  assumes "i < 5"
  shows "\<not> conditional (step1_questions ! i)"
    and "question_q (step1_questions ! i) \<noteq> product_name_text"
    and "id_q (step1_questions ! i) \<noteq> ''product_name''"
    and "id_q (step1_questions ! i) = ''company_scope'' \<longleftrightarrow> i = 4"
  using below_five [OF assms]
  by (auto simp: step1_questions_def product_name_text_def)

lemma sixth:
  "conditional (step1_questions ! 5)"
  "depends_on (step1_questions ! 5) = Some ''company_scope''"
  "depends_value (step1_questions ! 5) = Some ''Specific segment/product''"
  "question_q (step1_questions ! 5) = product_name_text"
  "id_q (step1_questions ! 5) = ''product_name''"
  by (simp_all add: step1_questions_def)

text \<open>The second half of \<open>handleStep1Question\<close> on the shipped list.\<close>

lemma nextOrSkip_shipped:
  assumes "questions s = step1_questions"
  shows "nextOrSkip V s =
    (if currentQuestionIndex s < 5 then
       addChatMessage (question_q (step1_questions ! currentQuestionIndex s)) s
     else if currentQuestionIndex s = 5 then
       (if map_of (responses s) ''company_scope'' \<noteq> Some ''Specific segment/product''
        then completeStep1 (s\<lparr> currentQuestionIndex := 6 \<rparr>)
        else addChatMessage product_name_text s)
     else completeStep1 s)"
proof -
  consider "currentQuestionIndex s < 5" | "currentQuestionIndex s = 5"
    | "5 < currentQuestionIndex s"
    by arith
  then show ?thesis
  proof cases
    case 1
    with assms first_five(1) [OF 1] show ?thesis
      by (subst nextOrSkip.simps) (simp add: Let_def)
  next
    case 2
    with assms show ?thesis
      by (subst nextOrSkip.simps) (simp add: Let_def sixth)
  next
    case 3
    with assms show ?thesis
      by (subst nextOrSkip.simps) simp
  qed
qed

lemma presented_append:
  "presented_before_completion t evs \<Longrightarrow> presented_before_completion t (evs @ evs')"
  by (auto simp: presented_before_completion_def takeWhile_append dest: set_takeWhileD)

lemma presented_unfinished:
  assumes "\<not> list_ex is_finalized evs"
  shows "presented_before_completion t evs \<longleftrightarrow> AssistantMessage t \<in> set evs"
proof -
  from assms have "takeWhile (\<lambda>e. \<not> is_finalized e) evs = evs"
    by (simp add: list_ex_iff)
  then show ?thesis
    unfolding presented_before_completion_def by (simp only:)
qed

lemma map_of_update:
  "map_of (AList.update k v al) k' = (if k' = k then Some v else map_of al k')"
  by (simp add: update_conv')

text \<open>Events other than the finalisation, of which the product-name question is one
  only while it is current, keep the invariant.\<close>

lemma inv_append:
  assumes "sequencer_inv s"
    and "\<not> list_ex is_finalized evs"
    and "AssistantMessage product_name_text \<in> set evs \<Longrightarrow> currentQuestionIndex s = 5"
  shows "sequencer_inv (s\<lparr> events := events s @ evs \<rparr>)"
  using assms
  unfolding sequencer_inv_def
  by (auto simp: presented_append)

lemma inv_start: "sequencer_inv start_state"
  by (simp add: sequencer_inv_def welcome_text_def product_name_text_def)

lemma rejected_inv:
  assumes "sequencer_inv s" and "currentQuestionIndex s < 6"
  shows "sequencer_inv (s\<lparr> events := events s @
      [ValidateRequest m (question_q (questions s ! currentQuestionIndex s))
         (type_q (questions s ! currentQuestionIndex s)),
       AssistantMessage clarification_text,
       AssistantMessage (question_q (questions s ! currentQuestionIndex s))] \<rparr>)"
proof (rule inv_append [OF assms(1)])
  show "\<not> list_ex is_finalized
      [ValidateRequest m (question_q (questions s ! currentQuestionIndex s))
         (type_q (questions s ! currentQuestionIndex s)),
       AssistantMessage clarification_text,
       AssistantMessage (question_q (questions s ! currentQuestionIndex s))]"
    by simp
next
  assume "AssistantMessage product_name_text \<in> set
      [ValidateRequest m (question_q (questions s ! currentQuestionIndex s))
         (type_q (questions s ! currentQuestionIndex s)),
       AssistantMessage clarification_text,
       AssistantMessage (question_q (questions s ! currentQuestionIndex s))]"
  then have "question_q (questions s ! currentQuestionIndex s) = product_name_text"
    by (auto simp: clarification_text_def product_name_text_def)
  moreover from assms(1) have "questions s = step1_questions"
    by (simp add: sequencer_inv_def)
  ultimately have "\<not> currentQuestionIndex s < 5"
    using first_five(2) [of "currentQuestionIndex s"] by auto
  with assms(2) show "currentQuestionIndex s = 5"
    by simp
qed

lemma accepted_inv:
  assumes "sequencer_inv s" and "currentQuestionIndex s < 6"
  shows "sequencer_inv (nextOrSkip V (s\<lparr> events := events s @
      [ValidateRequest m (question_q (questions s ! currentQuestionIndex s))
         (type_q (questions s ! currentQuestionIndex s))],
      responses := AList.update (id_q (questions s ! currentQuestionIndex s)) m (responses s),
      currentQuestionIndex := currentQuestionIndex s + 1 \<rparr>))"
proof -
  from assms(1) have qs: "questions s = step1_questions"
    by (simp add: sequencer_inv_def)
  consider "currentQuestionIndex s < 4" | "currentQuestionIndex s = 4"
    | "currentQuestionIndex s = 5"
    using assms(2) by arith
  then show ?thesis
  proof cases
    case 1
    then have "currentQuestionIndex s < 5" and "currentQuestionIndex s + 1 < 5"
      by simp_all
    from first_five [OF this(1)] first_five(2) [OF this(2)] 1 assms(1) show ?thesis
      unfolding sequencer_inv_def
      by (simp add: nextOrSkip_shipped qs map_of_update)
  next
    case 2
    have "id_q (step1_questions ! 4) = ''company_scope''"
      by (simp add: step1_questions_def)
    with 2 assms(1) show ?thesis
      unfolding sequencer_inv_def
      by (auto simp add: nextOrSkip_shipped qs map_of_update presented_unfinished)
  next
    case 3
    with assms(1) show ?thesis
      unfolding sequencer_inv_def
      by (auto simp add: nextOrSkip_shipped qs map_of_update sixth presented_append)
  qed
qed

lemma sendChatMessage_inv:
  assumes "sequencer_inv s"
  shows "sequencer_inv (sendChatMessage V C input s)"
proof (cases "trim input = []")
  case True
  with assms show ?thesis
    by (simp add: sendChatMessage_blank)
next
  case False
  let ?m = "trim input"
  let ?s1 = "s\<lparr> events := events s @ [UserMessage ?m] \<rparr>"
  have inv1: "sequencer_inv ?s1"
    using assms by (rule inv_append) simp_all
  then have qs: "questions ?s1 = step1_questions"
    by (simp add: sequencer_inv_def)
  show ?thesis
  proof (cases "currentQuestionIndex s < 6")
    case inside: True
    then have in1: "currentQuestionIndex ?s1 < 6" and in2: "currentQuestionIndex ?s1 < length (questions ?s1)"
      using qs by simp_all
    have "\<exists>s2. handleStep1Question V ?m ?s1 = Done s2 \<and> sequencer_inv s2"
    proof (cases "fst (validateResponse V ?m (questions ?s1 ! currentQuestionIndex ?s1) ?s1)")
      case True
      from handle_accepted [OF in2 True] accepted_inv [OF inv1 in1, of V ?m]
      show ?thesis by simp
    next
      case False
      from handle_rejected [OF in2 False] rejected_inv [OF inv1 in1, of ?m]
      show ?thesis by simp
    qed
    then obtain s2 where "handleStep1Question V ?m ?s1 = Done s2" and "sequencer_inv s2"
      by blast
    with False inside qs show ?thesis
      by (simp add: sendChatMessage_def Let_def)
  next
    case outside: False
    have "sequencer_inv (?s1\<lparr> events := events ?s1 @ [ChatRequest ?m (C (events ?s1) ?m)] \<rparr>)"
      using inv1 by (rule inv_append) simp_all
    with False outside qs show ?thesis
      by (simp add: sendChatMessage_def Let_def)
  qed
qed

lemma run_inv: "sequencer_inv s \<Longrightarrow> sequencer_inv (run V C inputs s)"
  by (induction inputs arbitrary: s) (simp_all add: sendChatMessage_inv)

text \<open>
  C2. Over the shipped list, from the state \<open>startChatMode\<close> leaves, for every
  validation service, chat backend and sequence of inputs: if the answer stored for
  \<open>company_scope\<close> is ``Whole company'', the sequencer has not posted the product-name
  question and no answer is stored for \<open>product_name\<close>; if it is
  ``Specific segment/product'', the sequencer has posted the product-name question, and
  before any finalisation of step 1.
\<close>

theorem product_name_follows_company_scope:
  "(map_of (responses (run V C inputs start_state)) ''company_scope'' = Some ''Whole company''
      \<longrightarrow> AssistantMessage product_name_text \<notin> set (events (run V C inputs start_state))
          \<and> map_of (responses (run V C inputs start_state)) ''product_name'' = None)
   \<and> (map_of (responses (run V C inputs start_state)) ''company_scope''
          = Some ''Specific segment/product''
      \<longrightarrow> presented_before_completion product_name_text
            (events (run V C inputs start_state)))"
proof -
  have inv: "sequencer_inv (run V C inputs start_state)"
    using inv_start by (rule run_inv)
  have "5 \<le> currentQuestionIndex (run V C inputs start_state)"
    if "map_of (responses (run V C inputs start_state)) ''company_scope'' = Some v" for v
    using inv that unfolding sequencer_inv_def by (auto simp: not_le [symmetric])
  with inv show ?thesis
    unfolding sequencer_inv_def by auto
qed

theorem product_name_follows_company_scope_witness:
  "map_of (responses whole_company_run) ''company_scope'' = Some ''Whole company''
   \<and> AssistantMessage product_name_text \<notin> set (events whole_company_run)
   \<and> map_of (responses whole_company_run) ''product_name'' = None
   \<and> map_of (responses segment_run) ''company_scope'' = Some ''Specific segment/product''
   \<and> presented_before_completion product_name_text (events segment_run)"
proof -
  have a: "map_of (responses whole_company_run) ''company_scope'' = Some ''Whole company''"
    by (simp add: whole_company_run_simps)
  have b: "map_of (responses segment_run) ''company_scope'' = Some ''Specific segment/product''"
    by (simp add: segment_run_simps)
  from product_name_follows_company_scope [of acceptAll chatOk
      "[''Acme'', ''We sell widgets'', ''SMBs'', ''First time'', ''Whole company'']"]
    product_name_follows_company_scope [of acceptAll chatOk
      "[''Acme'', ''We sell widgets'', ''SMBs'', ''First time'', ''Specific segment/product'']"]
    a b
  show ?thesis
    unfolding whole_company_run_def segment_run_def by blast
qed

end
